theory Spec2Isabelle
  imports Complex_Main "HOL-Library.Word" "HOL-Library.Sublist"
begin

section \<open>StegoShield service: a shallow embedding of main.py\<close>

text \<open>
  The development follows \<^verbatim>\<open>src/Resources/stegoshield_service/main.py\<close>.
  Python floats are modelled as real numbers, Python strings as lists of characters (one
  \<^typ>\<open>char\<close> per code point below 256), byte strings and 8-bit samples as lists
  of \<^typ>\<open>8 word\<close>. What the external libraries return (the OCR engine, the metadata
  reader, the raster codec, the block transform) is an input of the model.
\<close>

subsection \<open>Constants\<close>

definition SCORE_BLOCK :: real where
  "SCORE_BLOCK = 85 / 100"

definition SCORE_QUARANTINE :: real where
  "SCORE_QUARANTINE = 55 / 100"

definition METADATA_SUSPICION_KEYS :: "string list" where
  "METADATA_SUSPICION_KEYS = [''comment'', ''UserComment'', ''XPComment'', ''ImageDescription'']"

definition SUSPICIOUS_KEYWORDS :: "string list" where
  "SUSPICIOUS_KEYWORDS =
     [''ignore'', ''download'', ''secret'', ''password'', ''execute'', ''run'', ''open'',
      ''leak'', ''exfiltrate'']"

subsection \<open>String helpers of the Python runtime\<close>

text \<open>\<^verbatim>\<open>str.lower\<close> on code points below 256: the ASCII capitals and the Latin-1
  capitals (all of 192..222 but the multiplication sign 215) move up by 32.\<close>

definition lower_char :: "char \<Rightarrow> char" where
  "lower_char c =
     (let n = (of_char c :: nat)
      in if (65 \<le> n \<and> n \<le> 90) \<or> (192 \<le> n \<and> n \<le> 222 \<and> n \<noteq> 215)
         then char_of (n + 32) else c)"

definition lower :: "string \<Rightarrow> string" where
  "lower s = map lower_char s"

text \<open>\<^verbatim>\<open>k in t\<close> for strings: \<open>k\<close> occurs in \<open>t\<close> as a contiguous piece.\<close>

fun contains :: "string \<Rightarrow> string \<Rightarrow> bool" where
  "contains [] k = (k = [])"
| "contains (c # t) k = (prefix k (c # t) \<or> contains t k)"

text \<open>\<^verbatim>\<open>any(k in t.lower() for k in SUSPICIOUS_KEYWORDS)\<close>\<close>

definition has_suspicious_keyword :: "string \<Rightarrow> bool" where
  "has_suspicious_keyword t = list_ex (\<lambda>k. contains (lower t) k) SUSPICIOUS_KEYWORDS"

text \<open>\<^verbatim>\<open>str.strip\<close>: the white space of Python among the code points below 256.\<close>

definition is_space :: "char \<Rightarrow> bool" where
  "is_space c =
     (let n = (of_char c :: nat)
      in (9 \<le> n \<and> n \<le> 13) \<or> (28 \<le> n \<and> n \<le> 32) \<or> n = 133 \<or> n = 160)"

definition strip :: "string \<Rightarrow> string" where
  "strip s = rev (dropWhile is_space (rev (dropWhile is_space s)))"

subsection \<open>Text and keyword extractor (\<^verbatim>\<open>ocr_with_boxes\<close>)\<close>

text \<open>One row of the OCR engine's table: text, left, top, width, height.\<close>

type_synonym ocr_row = "string \<times> int \<times> int \<times> int \<times> int"
type_synonym ocr_box = "int \<times> int \<times> int \<times> int \<times> string"

fun ocr_with_boxes :: "ocr_row list \<Rightarrow> string list \<times> ocr_box list \<times> ocr_box list" where
  "ocr_with_boxes [] = ([], [], [])"
| "ocr_with_boxes ((t, x, y, w, h) # rows) =
     (let txt = strip t; (texts, boxes, suspicious) = ocr_with_boxes rows
      in if txt \<noteq> []
         then (txt # texts, (x, y, w, h, txt) # boxes,
               if has_suspicious_keyword txt then (x, y, w, h, txt) # suspicious else suspicious)
         else (texts, boxes, suspicious))"

subsection \<open>Resample-discrepancy detector (\<^verbatim>\<open>rdr_inconsistency_score\<close>)\<close>

text \<open>
  The argument lists what \<^verbatim>\<open>_random_resample\<close> did in each of the
  \<^verbatim>\<open>num_resamples\<close> trials: \<open>None\<close> when it raised, \<open>Some t\<close> when it returned
  the stripped text \<open>t\<close>. The loop keeps the non-empty texts.
\<close>

fun collect_texts :: "string option list \<Rightarrow> string list" where
  "collect_texts [] = []"
| "collect_texts (None # trials) = collect_texts trials"
| "collect_texts (Some t # trials) =
     (if t \<noteq> [] then t # collect_texts trials else collect_texts trials)"

definition rdr_inconsistency_score :: "string option list \<Rightarrow> real \<times> string list" where
  "rdr_inconsistency_score trials =
     (let texts = collect_texts trials
      in if texts = [] then (0, [])
         else
           let count_susp = length (filter has_suspicious_keyword texts);
               frac = real count_susp / real (max 1 (length texts));
               inconsistency =
                 (if count_susp > 0 \<and> frac < 7 / 10 then 5 / 10 + (5 / 10 * (1 - frac))
                  else if count_susp > 0 then 4 / 10 * frac
                  else 0);
               suspicious_texts = filter has_suspicious_keyword texts
           in (inconsistency, suspicious_texts))"

text \<open>The specification's \<open>frac\<close>: trials whose text holds a suspicious keyword over trials
  that returned non-empty text.\<close>

definition rdr_frac :: "string option list \<Rightarrow> real" where
  "rdr_frac trials =
     real (length (filter has_suspicious_keyword (collect_texts trials))) /
     real (length (collect_texts trials))"

subsection \<open>Decision policy (inside \<^verbatim>\<open>analyze\<close>)\<close>

datatype decision = ALLOW | SUSPICIOUS | BLOCK

fun severity :: "decision \<Rightarrow> nat" where
  "severity ALLOW = 0"
| "severity SUSPICIOUS = 1"
| "severity BLOCK = 2"

text \<open>Lines 215 to 217: the weighted sum, then \<^verbatim>\<open>max(0.0, min(1.0, score))\<close>.\<close>

definition weighted_score :: "real \<Rightarrow> real \<Rightarrow> real \<Rightarrow> string list \<Rightarrow> real" where
  "weighted_score lsb_entropy global_entropy blockiness flags =
     35 / 100 * lsb_entropy + 15 / 100 * (global_entropy / 8) + 25 / 100 * blockiness +
     (if flags \<noteq> [] then 6 / 10 else 0)"

definition stego_score :: "real \<Rightarrow> real \<Rightarrow> real \<Rightarrow> string list \<Rightarrow> real" where
  "stego_score lsb_entropy global_entropy blockiness flags =
     max 0 (min 1 (weighted_score lsb_entropy global_entropy blockiness flags))"

text \<open>Lines 219 to 223.\<close>

definition base_decision :: "real \<Rightarrow> decision" where
  "base_decision score =
     (if score \<ge> SCORE_BLOCK then BLOCK
      else if score \<ge> SCORE_QUARANTINE then SUSPICIOUS
      else ALLOW)"

text \<open>Lines 224 and 225.\<close>

definition escalate_rdr :: "real \<Rightarrow> decision \<Rightarrow> decision" where
  "escalate_rdr rdr_score d =
     (if rdr_score \<ge> 5 / 10 then (if d = ALLOW then SUSPICIOUS else BLOCK) else d)"

text \<open>Lines 226 and 227.\<close>

definition escalate_ocr :: "ocr_box list \<Rightarrow> decision \<Rightarrow> decision" where
  "escalate_ocr suspicious_boxes d =
     (if suspicious_boxes \<noteq> [] \<and> d \<noteq> BLOCK then SUSPICIOUS else d)"

definition final_decision :: "real \<Rightarrow> real \<Rightarrow> ocr_box list \<Rightarrow> decision" where
  "final_decision score rdr_score suspicious_boxes =
     escalate_ocr suspicious_boxes (escalate_rdr rdr_score (base_decision score))"

subsection \<open>Statistical analyzer (\<^verbatim>\<open>shannon_entropy\<close>)\<close>

text \<open>\<^verbatim>\<open>np.bincount(arr.flatten(), minlength=256).astype(float)\<close> on 8-bit samples:
  256 bins, bin \<open>v\<close> counting the samples of value \<open>v\<close>.\<close>

definition bincount256 :: "8 word list \<Rightarrow> real list" where
  "bincount256 xs = map (\<lambda>v. real (count_list xs (of_nat v))) [0..<256]"

text \<open>
  The plane is a list of rows; \<^verbatim>\<open>1e-12\<close> is \<open>1 / 10 ^ 12\<close>. The arithmetic is
  exact: the rounding of the doubles, of the order of \<open>1e-16\<close>, is not modelled, so
  the sign of a result that small is not that of the code.
\<close>

definition shannon_entropy :: "8 word list list \<Rightarrow> real" where
  "shannon_entropy arr =
     (let hist = bincount256 (concat arr);
          probs = map (\<lambda>h. h / (sum_list hist + 1 / 10 ^ 12)) hist;
          probs' = filter (\<lambda>p. p > 0) probs
      in - sum_list (map (\<lambda>p. p * log 2 (p + 1 / 10 ^ 12)) probs'))"

text \<open>Entry \<open>i\<close> of \<^verbatim>\<open>probs\<close> before the zero bins are dropped.\<close>

definition bin_prob :: "8 word list \<Rightarrow> nat \<Rightarrow> real" where
  "bin_prob xs i = real (count_list xs (of_nat i)) / (sum_list (bincount256 xs) + 1 / 10 ^ 12)"

subsection \<open>Metadata suspicion scanner (\<^verbatim>\<open>metadata_flags\<close>)\<close>

text \<open>A metadata value: a string, a raw byte sequence, or anything else (numbers,
  tuples, rationals), on which neither \<^verbatim>\<open>isinstance\<close> test of the scanner holds.\<close>

datatype meta_value = StrV string | BytesV "8 word list" | OtherV

text \<open>\<^verbatim>\<open>ExifTags.TAGS.get(tag_id, tag_id)\<close>: the tag's name where the table has one,
  the numeric identifier otherwise. The table belongs to the imaging library and is a
  parameter.\<close>

datatype tag = TagName string | TagId nat

definition resolve_tag :: "(nat \<rightharpoonup> string) \<Rightarrow> nat \<Rightarrow> tag" where
  "resolve_tag TAGS tag_id = (case TAGS tag_id of Some name \<Rightarrow> TagName name | None \<Rightarrow> TagId tag_id)"

function string_of_nat :: "nat \<Rightarrow> string" where
  "string_of_nat n =
     (if n < 10 then [char_of (48 + n)]
      else string_of_nat (n div 10) @ [char_of (48 + n mod 10)])"
  by pat_completeness auto
termination
  by (relation "measure id") auto

text \<open>\<^verbatim>\<open>f"{tag}"\<close>\<close>

fun format_tag :: "tag \<Rightarrow> string" where
  "format_tag (TagName name) = name"
| "format_tag (TagId n) = string_of_nat n"

text \<open>\<^verbatim>\<open>tag in METADATA_SUSPICION_KEYS\<close>: a number equals no string of the list.\<close>

fun tag_in_keys :: "tag \<Rightarrow> bool" where
  "tag_in_keys (TagName name) = (name \<in> set METADATA_SUSPICION_KEYS)"
| "tag_in_keys (TagId n) = False"

fun is_bytes :: "meta_value \<Rightarrow> bool" where
  "is_bytes (BytesV b) = True"
| "is_bytes v = False"

text \<open>\<^verbatim>\<open>isinstance(value, str) and len(value) > 512\<close>\<close>

fun is_long_str :: "meta_value \<Rightarrow> bool" where
  "is_long_str (StrV s) = (length s > 512)"
| "is_long_str v = False"

text \<open>The loop over \<^verbatim>\<open>exif.items()\<close>, lines 71 to 78.\<close>

fun exif_flags :: "(nat \<rightharpoonup> string) \<Rightarrow> (nat \<times> meta_value) list \<Rightarrow> string list" where
  "exif_flags TAGS [] = []"
| "exif_flags TAGS ((tag_id, v) # items) =
     (let tag = resolve_tag TAGS tag_id
      in (if tag_in_keys tag then [''meta_field:'' @ format_tag tag] else []) @
         (if is_bytes v then [''meta_raw_bytes:'' @ format_tag tag] else []) @
         (if is_long_str v then [''meta_long:'' @ format_tag tag] else []) @
         exif_flags TAGS items)"

text \<open>The loop over \<^verbatim>\<open>info.items()\<close>, lines 83 to 85.\<close>

fun info_flags :: "(string \<times> meta_value) list \<Rightarrow> string list" where
  "info_flags [] = []"
| "info_flags ((k, v) # items) =
     (if lower k \<in> set METADATA_SUSPICION_KEYS \<or> is_long_str v then [''png_info:'' @ k] else []) @
     info_flags items"

text \<open>
  \<open>exif\<close> is \<open>None\<close> when reading the EXIF table raised (the \<^verbatim>\<open>except\<close> clause
  then leaves the flags as they are), else the entries in order. \<^verbatim>\<open>list(set(flags))\<close>
  keeps one copy of each label, in an order Python does not fix; the model keeps the
  order of \<^const>\<open>remdups\<close>, and the properties below do not depend on it.
\<close>

definition metadata_flags ::
    "(nat \<rightharpoonup> string) \<Rightarrow> (nat \<times> meta_value) list option \<Rightarrow> (string \<times> meta_value) list \<Rightarrow> string list" where
  "metadata_flags TAGS exif info =
     remdups ((case exif of None \<Rightarrow> [] | Some items \<Rightarrow> exif_flags TAGS items) @ info_flags info)"

text \<open>The three label forms the specification lists.\<close>

definition spec_label_form :: "string \<Rightarrow> bool" where
  "spec_label_form l =
     (prefix ''meta_field:'' l \<or> prefix ''meta_raw_bytes:'' l \<or> prefix ''meta_long:'' l)"

subsection \<open>Watermark embedder (\<^verbatim>\<open>embed_watermark_dct_bytes\<close>)\<close>

text \<open>
  A plane is a list of rows. The decoded image after \<^verbatim>\<open>cv2.cvtColor(bgr,
  COLOR_BGR2YCrCb).astype(np.float32)\<close> is a grid of pixels, each holding the luma and
  the two chroma samples, that is an array of shape \<open>(h, w, 3)\<close>.
\<close>

type_synonym plane = "real list list"
type_synonym pixel = "real \<times> real \<times> real"
type_synonym ycrcb = "pixel list list"

text \<open>The two \<^verbatim>\<open>ValueError\<close>s the function raises, and their messages.\<close>

datatype embed_error = CannotDecode | MessageEmptyOrHostTooSmall

fun error_text :: "embed_error \<Rightarrow> string" where
  "error_text CannotDecode = ''Cannot decode image''"
| "error_text MessageEmptyOrHostTooSmall = ''Message empty or host too small''"

text \<open>An array of \<open>h\<close> rows of \<open>w\<close> entries.\<close>

definition has_shape :: "nat \<Rightarrow> nat \<Rightarrow> 'a list list \<Rightarrow> bool" where
  "has_shape h w a = (length a = h \<and> list_all (\<lambda>row. length row = w) a)"

text \<open>\<^verbatim>\<open>a.shape\<close> of a two-dimensional array with at least one row.\<close>

definition height :: "'a list list \<Rightarrow> nat" where
  "height a = length a"

definition width :: "'a list list \<Rightarrow> nat" where
  "width a = (case a of [] \<Rightarrow> 0 | row # rows \<Rightarrow> length row)"

text \<open>\<^verbatim>\<open>ycbcr[:, :, 0]\<close>, read and written.\<close>

definition channel0 :: "ycrcb \<Rightarrow> plane" where
  "channel0 a = map (map fst) a"

definition set_channel0 :: "ycrcb \<Rightarrow> plane \<Rightarrow> ycrcb" where
  "set_channel0 a y = map2 (map2 (\<lambda>(y0, cr, cb) v. (v, cr, cb))) a y"

text \<open>The chroma samples \<^verbatim>\<open>ycbcr[:, :, 1:]\<close>.\<close>

definition chroma :: "ycrcb \<Rightarrow> (real \<times> real) list list" where
  "chroma a = map (map snd) a"

text \<open>\<^verbatim>\<open>(8 - (n % 8)) % 8\<close>\<close>

definition pad_to_8 :: "nat \<Rightarrow> nat" where
  "pad_to_8 n = (8 - n mod 8) mod 8"

text \<open>
  \<^verbatim>\<open>np.pad(y, ((0, ph), (0, pw)), mode='reflect')\<close>: position \<open>i\<close> of the padded
  axis reads position \<open>reflect_index n i\<close> of the axis of length \<open>n\<close>, mirrored about
  the last entry without repeating it and folded back as often as needed; an axis of
  length 1 repeats its entry.
\<close>

definition reflect_index :: "nat \<Rightarrow> nat \<Rightarrow> nat" where
  "reflect_index n i =
     (if n \<le> 1 then 0
      else let p = 2 * (n - 1); j = i mod p in if j < n then j else p - j)"

definition pad_reflect_1d :: "nat \<Rightarrow> 'a list \<Rightarrow> 'a list" where
  "pad_reflect_1d k xs = map (\<lambda>i. xs ! reflect_index (length xs) i) [0..<length xs + k]"

definition pad_reflect :: "nat \<Rightarrow> nat \<Rightarrow> 'a list list \<Rightarrow> 'a list list" where
  "pad_reflect ph pw a = pad_reflect_1d ph (map (pad_reflect_1d pw) a)"

text \<open>\<^verbatim>\<open>base64.b64encode\<close> of the standard library (RFC 4648, with padding).\<close>

definition b64_alphabet :: string where
  "b64_alphabet = ''ABCDEFGHIJKLMNOPQRSTUVWXYZabcdefghijklmnopqrstuvwxyz0123456789+/''"

definition b64_char :: "nat \<Rightarrow> char" where
  "b64_char n = b64_alphabet ! n"

fun b64encode :: "8 word list \<Rightarrow> string" where
  "b64encode (a # b # c # rest) =
     [b64_char (unat a div 4), b64_char (unat a mod 4 * 16 + unat b div 16),
      b64_char (unat b mod 16 * 4 + unat c div 64), b64_char (unat c mod 64)] @ b64encode rest"
| "b64encode [a, b] =
     [b64_char (unat a div 4), b64_char (unat a mod 4 * 16 + unat b div 16),
      b64_char (unat b mod 16 * 4), CHR ''='']"
| "b64encode [a] = [b64_char (unat a div 4), b64_char (unat a mod 4 * 16), CHR ''='', CHR ''='']"
| "b64encode [] = []"

text \<open>\<^verbatim>\<open>format(b, '08b')\<close> for a byte.\<close>

definition format_08b :: "nat \<Rightarrow> string" where
  "format_08b b = map (\<lambda>k. if (b div 2 ^ k) mod 2 = 1 then CHR ''1'' else CHR ''0'') [7, 6, 5, 4, 3, 2, 1, 0]"

text \<open>\<^verbatim>\<open>''.join(format(b, '08b') for b in msg_b64.encode('ascii'))\<close>\<close>

definition message_bits :: "string \<Rightarrow> string" where
  "message_bits msg_b64 = concat (map (\<lambda>c. format_08b (of_char c)) msg_b64)"

text \<open>\<^verbatim>\<open>int(bits[bit_idx])\<close> on a string of zeros and ones.\<close>

definition int_of_bit :: "char \<Rightarrow> int" where
  "int_of_bit c = (if c = CHR ''1'' then 1 else 0)"

text \<open>\<^verbatim>\<open>int(np.round(x))\<close>: to the nearest integer, a tie to the even one.\<close>

definition np_round :: "real \<Rightarrow> int" where
  "np_round x =
     (let f = \<lfloor>x\<rfloor>; r = x - of_int f
      in if r < 1 / 2 then f else if 1 / 2 < r then f + 1 else if even f then f else f + 1)"

text \<open>\<^verbatim>\<open>y_p[i*8:(i+1)*8, j*8:(j+1)*8]\<close>, read and written; \<^verbatim>\<open>y_p[:h, :w]\<close>.\<close>

definition get_block :: "plane \<Rightarrow> nat \<Rightarrow> nat \<Rightarrow> plane" where
  "get_block y_p i j = map (\<lambda>row. take 8 (drop (j * 8) row)) (take 8 (drop (i * 8) y_p))"

definition set_block :: "plane \<Rightarrow> nat \<Rightarrow> nat \<Rightarrow> plane \<Rightarrow> plane" where
  "set_block y_p i j b =
     map (\<lambda>(r, row).
            if i * 8 \<le> r \<and> r < (i + 1) * 8
            then map (\<lambda>(c, v). if j * 8 \<le> c \<and> c < (j + 1) * 8 then b ! (r - i * 8) ! (c - j * 8) else v)
                   (enumerate 0 row)
            else row)
         (enumerate 0 y_p)"

definition crop :: "nat \<Rightarrow> nat \<Rightarrow> plane \<Rightarrow> plane" where
  "crop h w y_p = map (take w) (take h y_p)"

text \<open>\<^verbatim>\<open>d[r, c] = v\<close>\<close>

definition set_coeff :: "plane \<Rightarrow> nat \<Rightarrow> nat \<Rightarrow> real \<Rightarrow> plane" where
  "set_coeff d r c v = d[r := (d ! r)[c := v]]"

text \<open>Lines 160 to 167 on the coefficients \<open>d\<close> of one block, for the message bit
  \<open>bitc\<close>.\<close>

definition nudge_coeff :: "int \<Rightarrow> plane \<Rightarrow> char \<Rightarrow> plane" where
  "nudge_coeff alpha d bitc =
     (let r = 1; c = 0;
          coeff_int = np_round (d ! r ! c);
          bit = int_of_bit bitc
      in if coeff_int mod 2 \<noteq> bit
         then (if coeff_int \<ge> 0 then set_coeff d r c (of_int (coeff_int + alpha))
               else set_coeff d r c (of_int (coeff_int - alpha)))
         else d)"

text \<open>
  The body of the inner loop, lines 156 to 169, on the state \<open>(y_p, bit_idx)\<close>. The
  block transform \<^verbatim>\<open>cv2.dct\<close> and its inverse \<^verbatim>\<open>cv2.idct\<close> are parameters. Where
  the source leaves the loops with \<^verbatim>\<open>break\<close>, the body leaves the state as it is:
  \<open>bit_idx\<close> does not change any more, so every later iteration does the same.
\<close>

definition embed_block ::
    "(plane \<Rightarrow> plane) \<Rightarrow> (plane \<Rightarrow> plane) \<Rightarrow> int \<Rightarrow> string \<Rightarrow> nat \<Rightarrow> nat \<Rightarrow> plane \<times> nat \<Rightarrow> plane \<times> nat" where
  "embed_block dct idct alpha bits i j st =
     (case st of (y_p, bit_idx) \<Rightarrow>
        if bit_idx \<ge> length bits then (y_p, bit_idx)
        else
          let block = get_block y_p i j;
              d = nudge_coeff alpha (dct block) (bits ! bit_idx)
          in (set_block y_p i j (idct d), bit_idx + 1))"

definition embed_loop ::
    "(plane \<Rightarrow> plane) \<Rightarrow> (plane \<Rightarrow> plane) \<Rightarrow> int \<Rightarrow> string \<Rightarrow> nat \<Rightarrow> nat \<Rightarrow> plane \<Rightarrow> plane \<times> nat" where
  "embed_loop dct idct alpha bits bh bw y_p =
     fold (\<lambda>i st. fold (\<lambda>j. embed_block dct idct alpha bits i j) [0..<bw] st) [0..<bh] (y_p, 0)"

text \<open>Lines 142 to 147: the padded luma plane.\<close>

definition padded_luma :: "ycrcb \<Rightarrow> plane" where
  "padded_luma ycbcr =
     (let y = channel0 ycbcr; h = height y; w = width y;
          ph = pad_to_8 h; pw = pad_to_8 w
      in pad_reflect ph pw y)"

text \<open>Lines 147 to 150: the bit string after the cut to \<open>bh * bw\<close> bits. The message
  is given as its UTF-8 bytes, \<^verbatim>\<open>message.encode('utf-8')\<close>.\<close>

definition embedded_bits :: "ycrcb \<Rightarrow> 8 word list \<Rightarrow> string" where
  "embedded_bits ycbcr message =
     (let y_p = padded_luma ycbcr;
          bh = height y_p div 8; bw = width y_p div 8;
          msg_b64 = b64encode message;
          bits = message_bits msg_b64
      in take (bh * bw) bits)"

text \<open>
  Lines 174 to 176 work on 8-bit samples and belong to numpy and OpenCV, so they are
  parameters: \<^verbatim>\<open>astype(np.uint8)\<close> on one sample, the colour conversion
  \<^verbatim>\<open>cv2.cvtColor(..., cv2.COLOR_YCrCb2BGR)\<close>, and \<^verbatim>\<open>cv2.imencode('.png', ...)\<close>
  followed by \<^verbatim>\<open>tobytes()\<close>.
\<close>

type_synonym pixel8 = "8 word \<times> 8 word \<times> 8 word"

record codec =
  astype_uint8 :: "real \<Rightarrow> 8 word"
  ycrcb2bgr :: "pixel8 list list \<Rightarrow> pixel8 list list"
  imencode_png :: "pixel8 list list \<Rightarrow> 8 word list"

definition encode_output :: "codec \<Rightarrow> ycrcb \<Rightarrow> 8 word list" where
  "encode_output cv ycbcr =
     (let out_bgr = ycrcb2bgr cv
            (map (map (\<lambda>(y, cr, cb). (astype_uint8 cv y, astype_uint8 cv cr, astype_uint8 cv cb)))
               ycbcr)
      in imencode_png cv out_bgr)"

text \<open>
  The function. \<open>decoded\<close> is \<open>None\<close> when \<^verbatim>\<open>cv2.imdecode\<close> returned
  \<^verbatim>\<open>None\<close>, else the array \<^verbatim>\<open>ycbcr\<close> of line 141. The result holds the bytes of
  the encoded output image and \<^verbatim>\<open>msg_b64\<close>.
\<close>

definition embed_watermark_dct_bytes ::
    "(plane \<Rightarrow> plane) \<Rightarrow> (plane \<Rightarrow> plane) \<Rightarrow> codec \<Rightarrow> ycrcb option \<Rightarrow> 8 word list \<Rightarrow> int \<Rightarrow>
     embed_error + (8 word list \<times> string)" where
  "embed_watermark_dct_bytes dct idct cv decoded message alpha =
     (case decoded of
        None \<Rightarrow> Inl CannotDecode
      | Some ycbcr \<Rightarrow>
          let y = channel0 ycbcr; h = height y; w = width y;
              y_p = padded_luma ycbcr;
              bh = height y_p div 8; bw = width y_p div 8;
              msg_b64 = b64encode message;
              bits = embedded_bits ycbcr message
          in if bits = [] then Inl MessageEmptyOrHostTooSmall
             else
               let y_wm = crop h w (fst (embed_loop dct idct alpha bits bh bw y_p));
                   ycbcr' = set_channel0 ycbcr y_wm
               in Inr (encode_output cv ycbcr', msg_b64))"

text \<open>The specification's count of blocks, \<open>floor(h/8) * floor(w/8)\<close>.\<close>

definition spec_capacity :: "nat \<Rightarrow> nat \<Rightarrow> nat" where
  "spec_capacity h w = (h div 8) * (w div 8)"

subsection \<open>The analysis request (\<^verbatim>\<open>analyze\<close>)\<close>

text \<open>
  What \<^verbatim>\<open>analyze\<close> reads from its collaborators once the upload is open: the file
  name and the hash of the raw bytes, the metadata, the two scores of the analyzers not
  modelled here (\<^verbatim>\<open>lsb_entropy_score\<close>, \<^verbatim>\<open>jpeg_blockiness_score\<close>), the gray
  plane, the OCR table (\<open>Inl\<close> with the message when the OCR call raised, which the
  outer \<^verbatim>\<open>except\<close> turns into an error response), the outcomes of the resample trials,
  and the two form parameters of the watermark. The parameter \<^verbatim>\<open>purger_ncomp\<close> is
  not used by the source.
\<close>

record request =
  req_filename :: string
  req_sha256 :: string
  req_TAGS :: "nat \<rightharpoonup> string"
  req_exif :: "(nat \<times> meta_value) list option"
  req_info :: "(string \<times> meta_value) list"
  req_lsb_entropy :: real
  req_gray :: "8 word list list"
  req_blockiness :: real
  req_ocr :: "string + ocr_row list"
  req_rdr_trials :: "string option list"
  req_watermark_enabled :: "bool option"
  req_watermark_msg :: "string option"

text \<open>The dictionary \<^verbatim>\<open>res\<close>; the three watermark keys are present only when set.\<close>

record analysis_result =
  res_path :: string
  res_sha256 :: string
  res_metadata_flags :: "string list"
  res_lsb_entropy :: real
  res_global_entropy :: real
  res_blockiness :: real
  res_ocr_texts :: "string list"
  res_ocr_suspicious :: "string list"
  res_rdr_score :: real
  res_rdr_examples :: "string list"
  res_stego_score :: real
  res_decision :: decision
  res_watermarked_base64 :: "string option"
  res_watermark_message :: "string option"
  res_watermark_error :: "string option"

text \<open>Lines 196 to 229: \<^verbatim>\<open>res\<close> before the watermark step.\<close>

definition analysis_core :: "request \<Rightarrow> ocr_row list \<Rightarrow> analysis_result" where
  "analysis_core req rows =
     (let flags = metadata_flags (req_TAGS req) (req_exif req) (req_info req);
          lsb = req_lsb_entropy req;
          glob = shannon_entropy (req_gray req);
          blk = req_blockiness req;
          (texts, boxes, suspicious_boxes) = ocr_with_boxes rows;
          (rdr_score, rdr_sus) = rdr_inconsistency_score (req_rdr_trials req);
          score = stego_score lsb glob blk flags
      in \<lparr> res_path = req_filename req,
           res_sha256 = req_sha256 req,
           res_metadata_flags = flags,
           res_lsb_entropy = lsb,
           res_global_entropy = glob,
           res_blockiness = blk,
           res_ocr_texts = texts,
           res_ocr_suspicious = map (\<lambda>(x, y, w, h, txt). txt) suspicious_boxes,
           res_rdr_score = rdr_score,
           res_rdr_examples = rdr_sus,
           res_stego_score = score,
           res_decision = final_decision score rdr_score suspicious_boxes,
           res_watermarked_base64 = None,
           res_watermark_message = None,
           res_watermark_error = None \<rparr>)"

text \<open>\<^verbatim>\<open>watermark_msg or "stegoshield-demo"\<close>\<close>

definition effective_message :: "request \<Rightarrow> string" where
  "effective_message req =
     (case req_watermark_msg req of
        None \<Rightarrow> ''stegoshield-demo''
      | Some m \<Rightarrow> if m = [] then ''stegoshield-demo'' else m)"

text \<open>
  Lines 231 to 237. \<open>embedder\<close> stands for the call
  \<^verbatim>\<open>embed_watermark_dct_bytes(raw, message)\<close>: \<open>Inl\<close> with \<^verbatim>\<open>str(e)\<close> when it
  raised an exception \<open>e\<close>, else the output bytes and \<^verbatim>\<open>msg_b64\<close>.
\<close>

definition watermark_step ::
    "request \<Rightarrow> (string \<Rightarrow> string + (8 word list \<times> string)) \<Rightarrow> analysis_result \<Rightarrow> analysis_result" where
  "watermark_step req embedder res =
     (if req_watermark_enabled req = Some True \<and> res_decision res = ALLOW
      then (case embedder (effective_message req) of
              Inr (wm_bytes, msg_b64) \<Rightarrow>
                res\<lparr> res_watermarked_base64 := Some (b64encode wm_bytes),
                     res_watermark_message := Some msg_b64 \<rparr>
            | Inl e \<Rightarrow> res\<lparr> res_watermark_error := Some e \<rparr>)
      else res)"

text \<open>
  The handler. \<open>upload\<close> is \<open>Inl\<close> with the message when reading or opening the
  upload raised; the result is \<open>Inl\<close> for the error response with status 400.
\<close>

definition analyze ::
    "string + request \<Rightarrow> (string \<Rightarrow> string + (8 word list \<times> string)) \<Rightarrow> string + analysis_result" where
  "analyze upload embedder =
     (case upload of
        Inl e \<Rightarrow> Inl e
      | Inr req \<Rightarrow>
          (case req_ocr req of
             Inl e \<Rightarrow> Inl e
           | Inr rows \<Rightarrow> Inr (watermark_step req embedder (analysis_core req rows))))"

text \<open>
  The embedder as \<^verbatim>\<open>analyze\<close> calls it, with the default \<open>alpha = 4\<close>: \<open>utf8\<close> is
  \<^verbatim>\<open>message.encode('utf-8')\<close>.
\<close>

definition embed_call ::
    "(plane \<Rightarrow> plane) \<Rightarrow> (plane \<Rightarrow> plane) \<Rightarrow> codec \<Rightarrow> (string \<Rightarrow> 8 word list) \<Rightarrow>
     ycrcb option \<Rightarrow> string \<Rightarrow> string + (8 word list \<times> string)" where
  "embed_call dct idct cv utf8 decoded message =
     (case embed_watermark_dct_bytes dct idct cv decoded (utf8 message) 4 of
        Inl e \<Rightarrow> Inl (error_text e)
      | Inr (wm_bytes, msg_b64) \<Rightarrow> Inr (wm_bytes, msg_b64))"

text \<open>Two results agree on everything the analysis computed.\<close>

definition same_analysis :: "analysis_result \<Rightarrow> analysis_result \<Rightarrow> bool" where
  "same_analysis r r' =
     (res_path r = res_path r' \<and> res_sha256 r = res_sha256 r'
      \<and> res_metadata_flags r = res_metadata_flags r'
      \<and> res_lsb_entropy r = res_lsb_entropy r' \<and> res_global_entropy r = res_global_entropy r'
      \<and> res_blockiness r = res_blockiness r'
      \<and> res_ocr_texts r = res_ocr_texts r' \<and> res_ocr_suspicious r = res_ocr_suspicious r'
      \<and> res_rdr_score r = res_rdr_score r' \<and> res_rdr_examples r = res_rdr_examples r'
      \<and> res_stego_score r = res_stego_score r' \<and> res_decision r = res_decision r')"

section \<open>Properties\<close>

subsection \<open>Decision policy\<close>

lemma severity_escalate_rdr: "severity d \<le> severity (escalate_rdr r d)"
  by (cases d) (simp_all add: escalate_rdr_def)

lemma severity_escalate_ocr: "severity d \<le> severity (escalate_ocr s d)"
  by (cases d) (simp_all add: escalate_ocr_def)

text \<open>
  Claim C3. The final decision is never less severe than the base decision computed from
  the stego score, whatever the two escalation triggers are; each escalation step alone
  never lowers the severity, and each leaves \<open>BLOCK\<close> as it is.
\<close>

theorem decision_monotonic:
  "severity (base_decision score) \<le> severity (final_decision score rdr_score suspicious_boxes)
   \<and> severity d \<le> severity (escalate_rdr rdr_score d)
   \<and> severity d \<le> severity (escalate_ocr suspicious_boxes d)
   \<and> escalate_rdr rdr_score BLOCK = BLOCK
   \<and> escalate_ocr suspicious_boxes BLOCK = BLOCK
   \<and> (base_decision score = BLOCK \<longrightarrow> final_decision score rdr_score suspicious_boxes = BLOCK)"
proof -
  have "severity (base_decision score) \<le> severity (escalate_rdr rdr_score (base_decision score))"
    by (rule severity_escalate_rdr)
  also have "\<dots> \<le> severity (final_decision score rdr_score suspicious_boxes)"
    unfolding final_decision_def by (rule severity_escalate_ocr)
  finally have total: "severity (base_decision score)
      \<le> severity (final_decision score rdr_score suspicious_boxes)" .
  have keep: "base_decision score = BLOCK \<longrightarrow>
      final_decision score rdr_score suspicious_boxes = BLOCK"
    by (simp add: final_decision_def escalate_rdr_def escalate_ocr_def)
  show ?thesis
    using total keep severity_escalate_rdr severity_escalate_ocr
    by (simp add: escalate_rdr_def escalate_ocr_def)
qed

theorem decision_monotonic_witness:
  "base_decision (9 / 10) = BLOCK
   \<and> final_decision (9 / 10) (6 / 10) [(0, 0, 1, 1, ''run'')] = BLOCK
   \<and> severity (base_decision (1 / 10)) \<le> severity (final_decision (1 / 10) (6 / 10) [])"
  using decision_monotonic [of "9 / 10" "6 / 10" "[(0, 0, 1, 1, ''run'')]" BLOCK]
    decision_monotonic [of "1 / 10" "6 / 10" "[]" ALLOW]
  by (simp add: base_decision_def SCORE_BLOCK_def)

subsection \<open>Composite score\<close>

text \<open>
  Claim C8. Whatever the three component scores are and whether or not metadata flags
  were found, the composite stego score lies between 0 and 1.
\<close>

theorem stego_score_in_unit_interval:
  "0 \<le> stego_score lsb_entropy global_entropy blockiness flags
   \<and> stego_score lsb_entropy global_entropy blockiness flags \<le> 1"
  by (simp add: stego_score_def)

subsection \<open>Resample-discrepancy score\<close>

lemma rdr_frac_le_one: "rdr_frac trials \<le> 1"
  by (simp add: rdr_frac_def divide_le_eq_1)

lemma rdr_score_unfold:
  assumes "collect_texts trials \<noteq> []"
  shows "fst (rdr_inconsistency_score trials) =
           (if 0 < rdr_frac trials \<and> rdr_frac trials < 7 / 10
            then 5 / 10 + (5 / 10 * (1 - rdr_frac trials))
            else if 0 < rdr_frac trials then 4 / 10 * rdr_frac trials
            else 0)"
proof -
  let ?texts = "collect_texts trials"
  let ?c = "length (filter has_suspicious_keyword ?texts)"
  from assms have len: "0 < length ?texts" by simp
  then have m: "max (Suc 0) (length ?texts) = length ?texts"
    by (simp add: max_def Suc_leI)
  have frac: "real ?c / real (length ?texts) = rdr_frac trials"
    by (simp add: rdr_frac_def)
  have pos: "0 < ?c \<longleftrightarrow> 0 < rdr_frac trials"
    using len by (simp add: rdr_frac_def zero_less_divide_iff)
  have "fst (rdr_inconsistency_score trials) =
          (if 0 < ?c \<and> real ?c / real (length ?texts) < 7 / 10
           then 5 / 10 + (5 / 10 * (1 - real ?c / real (length ?texts)))
           else if 0 < ?c then 4 / 10 * (real ?c / real (length ?texts))
           else 0)"
    using assms by (simp add: rdr_inconsistency_score_def Let_def m del: length_greater_0_conv)
  then show ?thesis
    unfolding frac pos .
qed

text \<open>
  Claim C4. When no trial returned non-empty text the score is 0 (a trial that raised or
  returned nothing is not counted). Otherwise, with \<open>frac\<close> the share of the
  text-returning trials whose text holds a suspicious keyword, the score is
  \<open>0.5 + 0.5 * (1 - frac)\<close> for \<open>0 < frac < 0.7\<close>, \<open>0.4 * frac\<close> for
  \<open>frac \<ge> 0.7\<close>, and 0 for \<open>frac = 0\<close>.
\<close>

theorem rdr_score_cases:
  "(collect_texts trials = [] \<longrightarrow> fst (rdr_inconsistency_score trials) = 0)
   \<and> (collect_texts trials \<noteq> [] \<longrightarrow>
        (0 < rdr_frac trials \<and> rdr_frac trials < 7 / 10 \<longrightarrow>
           fst (rdr_inconsistency_score trials) = 5 / 10 + 5 / 10 * (1 - rdr_frac trials))
      \<and> (7 / 10 \<le> rdr_frac trials \<longrightarrow>
           fst (rdr_inconsistency_score trials) = 4 / 10 * rdr_frac trials)
      \<and> (rdr_frac trials = 0 \<longrightarrow> fst (rdr_inconsistency_score trials) = 0))"
proof (cases "collect_texts trials = []")
  case True
  then show ?thesis by (simp add: rdr_inconsistency_score_def)
next
  case False
  show ?thesis
    using False by (simp add: rdr_score_unfold [OF False])
qed

theorem rdr_score_cases_witness:
  "collect_texts [Some ''Run now'', None, Some ''hello'', Some ''''] = [''Run now'', ''hello'']
   \<and> rdr_frac [Some ''Run now'', None, Some ''hello'', Some ''''] = 1 / 2
   \<and> fst (rdr_inconsistency_score [Some ''Run now'', None, Some ''hello'', Some '''']) = 3 / 4"
  using rdr_score_cases [of "[Some ''Run now'', None, Some ''hello'', Some '''']"]
  by (simp add: rdr_frac_def has_suspicious_keyword_def SUSPICIOUS_KEYWORDS_def lower_def
      lower_char_def char_of_def bit_Suc_0_iff)

text \<open>
  Claim C10. When at least 70 percent of the text-returning trials hold a suspicious
  keyword, the score is at most 0.4, hence below the 0.5 threshold of the escalation
  step, which then leaves every decision as it is.
\<close>

theorem rdr_consistent_text_never_escalates:
  assumes "collect_texts trials \<noteq> []" and "7 / 10 \<le> rdr_frac trials"
  shows "fst (rdr_inconsistency_score trials) \<le> 4 / 10
         \<and> fst (rdr_inconsistency_score trials) < 5 / 10
         \<and> escalate_rdr (fst (rdr_inconsistency_score trials)) d = d"
proof -
  have "0 < rdr_frac trials" using assms(2) by simp
  then have eq: "fst (rdr_inconsistency_score trials) = 4 / 10 * rdr_frac trials"
    using assms by (simp add: rdr_score_unfold)
  have "4 / 10 * rdr_frac trials \<le> 4 / 10"
    using rdr_frac_le_one [of trials] by simp
  then show ?thesis
    by (simp add: eq escalate_rdr_def)
qed

theorem rdr_consistent_text_never_escalates_witness:
  "collect_texts [Some ''run'', Some ''Open the door'', None] \<noteq> []
   \<and> 7 / 10 \<le> rdr_frac [Some ''run'', Some ''Open the door'', None]
   \<and> fst (rdr_inconsistency_score [Some ''run'', Some ''Open the door'', None]) \<le> 4 / 10
   \<and> escalate_rdr (fst (rdr_inconsistency_score [Some ''run'', Some ''Open the door'', None]))
        ALLOW = ALLOW"
proof -
  have t: "collect_texts [Some ''run'', Some ''Open the door'', None] \<noteq> []"
    by simp
  have f: "7 / 10 \<le> rdr_frac [Some ''run'', Some ''Open the door'', None]"
    by (simp add: rdr_frac_def has_suspicious_keyword_def SUSPICIOUS_KEYWORDS_def lower_def
        lower_char_def char_of_def bit_Suc_0_iff)
  show ?thesis
    using t f rdr_consistent_text_never_escalates [OF t f, of ALLOW] by simp
qed

subsection \<open>Metadata suspicion scanner\<close>

lemma set_exif_flags:
  "l \<in> set (exif_flags TAGS items) \<longleftrightarrow>
     (\<exists>(tag_id, v) \<in> set items.
        (l = ''meta_field:'' @ format_tag (resolve_tag TAGS tag_id) \<and> tag_in_keys (resolve_tag TAGS tag_id))
      \<or> (l = ''meta_raw_bytes:'' @ format_tag (resolve_tag TAGS tag_id) \<and> is_bytes v)
      \<or> (l = ''meta_long:'' @ format_tag (resolve_tag TAGS tag_id) \<and> is_long_str v))"
  by (induction TAGS items rule: exif_flags.induct) (auto simp: Let_def)

lemma set_info_flags:
  "l \<in> set (info_flags info) \<longleftrightarrow>
     (\<exists>(k, v) \<in> set info. l = ''png_info:'' @ k \<and> (lower k \<in> set METADATA_SUSPICION_KEYS \<or> is_long_str v))"
  by (induction info rule: info_flags.induct) auto

lemma exif_flags_form: "l \<in> set (exif_flags TAGS items) \<Longrightarrow> spec_label_form l"
  by (induction TAGS items rule: exif_flags.induct)
     (auto simp: Let_def spec_label_form_def split: if_splits)

lemma info_flags_form: "l \<in> set (info_flags info) \<Longrightarrow> prefix ''png_info:'' l"
  by (induction info rule: info_flags.induct) (auto split: if_splits)

lemma set_metadata_flags:
  "set (metadata_flags TAGS exif info) =
     set (exif_flags TAGS (case exif of None \<Rightarrow> [] | Some items \<Rightarrow> items)) \<union> set (info_flags info)"
  by (cases exif) (simp_all add: metadata_flags_def)

text \<open>
  Claim C7, as stated, fails: an entry of the container's info dictionary is reported
  under a fourth label form, \<open>png_info:<key>\<close>. Here the info dictionary holds the key
  \<open>comment\<close> and there is no EXIF entry.
\<close>

theorem metadata_flags_png_info_counterexample:
  "metadata_flags Map.empty (Some []) [(''comment'', StrV ''hello'')] = [''png_info:comment'']
   \<and> \<not> spec_label_form ''png_info:comment''"
  by (simp add: metadata_flags_def METADATA_SUSPICION_KEYS_def lower_def lower_char_def
      spec_label_form_def)

text \<open>
  Claim C7, amended. The output has no duplicates. A label is in the output exactly when
  an EXIF entry or an info entry produces it: an EXIF entry with tag \<open>t\<close> produces
  \<open>meta_field:t\<close> exactly when \<open>t\<close> is on the watch-list, \<open>meta_raw_bytes:t\<close> exactly
  when its value is a raw byte sequence, and \<open>meta_long:t\<close> exactly when its value is a
  string of more than 512 characters; an info entry with key \<open>k\<close> produces
  \<open>png_info:k\<close> exactly when the lower-cased key is on the watch-list or its value is a
  string of more than 512 characters. So every label has one of four forms.
\<close>

theorem metadata_flags_labels:
  "distinct (metadata_flags TAGS exif info)
   \<and> (l \<in> set (metadata_flags TAGS exif info) \<longleftrightarrow>
        (\<exists>(tag_id, v) \<in> set (case exif of None \<Rightarrow> [] | Some items \<Rightarrow> items).
            (l = ''meta_field:'' @ format_tag (resolve_tag TAGS tag_id) \<and> tag_in_keys (resolve_tag TAGS tag_id))
          \<or> (l = ''meta_raw_bytes:'' @ format_tag (resolve_tag TAGS tag_id) \<and> is_bytes v)
          \<or> (l = ''meta_long:'' @ format_tag (resolve_tag TAGS tag_id) \<and> is_long_str v))
      \<or> (\<exists>(k, v) \<in> set info.
            l = ''png_info:'' @ k \<and> (lower k \<in> set METADATA_SUSPICION_KEYS \<or> is_long_str v)))
   \<and> (\<forall>l' \<in> set (metadata_flags TAGS exif info). spec_label_form l' \<or> prefix ''png_info:'' l')"
proof (intro conjI ballI)
  show "distinct (metadata_flags TAGS exif info)"
    by (simp add: metadata_flags_def)
  show "l \<in> set (metadata_flags TAGS exif info) \<longleftrightarrow>
        (\<exists>(tag_id, v) \<in> set (case exif of None \<Rightarrow> [] | Some items \<Rightarrow> items).
            (l = ''meta_field:'' @ format_tag (resolve_tag TAGS tag_id) \<and> tag_in_keys (resolve_tag TAGS tag_id))
          \<or> (l = ''meta_raw_bytes:'' @ format_tag (resolve_tag TAGS tag_id) \<and> is_bytes v)
          \<or> (l = ''meta_long:'' @ format_tag (resolve_tag TAGS tag_id) \<and> is_long_str v))
      \<or> (\<exists>(k, v) \<in> set info.
            l = ''png_info:'' @ k \<and> (lower k \<in> set METADATA_SUSPICION_KEYS \<or> is_long_str v))"
    unfolding set_metadata_flags Un_iff set_exif_flags set_info_flags ..
  fix l' assume "l' \<in> set (metadata_flags TAGS exif info)"
  then show "spec_label_form l' \<or> prefix ''png_info:'' l'"
    unfolding set_metadata_flags Un_iff
    using exif_flags_form info_flags_form by blast
qed

theorem metadata_flags_labels_witness:
  "metadata_flags [37510 \<mapsto> ''UserComment'']
      (Some [(37510, BytesV [1, 2]), (700, BytesV [3])]) [(''Comment'', StrV ''x'')]
    = [''meta_field:UserComment'', ''meta_raw_bytes:UserComment'', ''meta_raw_bytes:700'',
       ''png_info:Comment'']
   \<and> spec_label_form ''meta_raw_bytes:700''
   \<and> prefix ''png_info:'' ''png_info:Comment''"
  using metadata_flags_labels [of "[37510 \<mapsto> ''UserComment'']"
      "Some [(37510, BytesV [1, 2]), (700, BytesV [3])]" "[(''Comment'', StrV ''x'')]"
      "''png_info:Comment''"]
  by (simp add: metadata_flags_def METADATA_SUSPICION_KEYS_def lower_def lower_char_def
      resolve_tag_def char_of_def bit_Suc_0_iff spec_label_form_def)

subsection \<open>Global entropy\<close>

lemma ln2_ge_half: "1 / 2 \<le> ln (2::real)"
proof -
  have "ln (1 / 2 :: real) \<le> 1 / 2 - 1"
    by (rule ln_le_minus_one) simp
  moreover have "ln (1 / 2 :: real) = - ln 2"
    by (simp add: ln_div)
  ultimately show ?thesis by simp
qed

lemma shannon_entropy_sum:
  "shannon_entropy arr =
     - (\<Sum>i = 0..<256. if 0 < bin_prob (concat arr) i
          then bin_prob (concat arr) i * log 2 (bin_prob (concat arr) i + 1 / 10 ^ 12) else 0)"
proof -
  let ?xs = "concat arr"
  let ?T = "sum_list (bincount256 ?xs) + 1 / 10 ^ 12"
  have probs: "map (\<lambda>h. h / ?T) (bincount256 ?xs) = map (bin_prob ?xs) [0..<256]"
    by (simp add: bincount256_def bin_prob_def)
  have "shannon_entropy arr =
      - sum_list (map (\<lambda>p. p * log 2 (p + 1 / 10 ^ 12))
          (filter (\<lambda>p. 0 < p) (map (bin_prob ?xs) [0..<256])))"
    unfolding shannon_entropy_def Let_def probs ..
  also have "\<dots> = - (\<Sum>i\<leftarrow>[0..<256]. if 0 < bin_prob ?xs i
          then bin_prob ?xs i * log 2 (bin_prob ?xs i + 1 / 10 ^ 12) else 0)"
    by (simp only: filter_map sum_list_map_filter' map_map o_def)
  also have "\<dots> = - (\<Sum>i = 0..<256. if 0 < bin_prob ?xs i
          then bin_prob ?xs i * log 2 (bin_prob ?xs i + 1 / 10 ^ 12) else 0)"
    by (simp only: interv_sum_list_conv_sum_set_nat set_upt)
  finally show ?thesis .
qed

lemma hist_sum_nonneg: "0 \<le> sum_list (bincount256 xs)"
  by (rule sum_list_nonneg) (auto simp: bincount256_def)

lemma bin_prob_nonneg: "0 \<le> bin_prob xs i"
  using hist_sum_nonneg [of xs] by (simp add: bin_prob_def)

lemma bin_prob_sum:
  "(\<Sum>i = 0..<256. bin_prob xs i) =
     sum_list (bincount256 xs) / (sum_list (bincount256 xs) + 1 / 10 ^ 12)"
proof -
  have "sum_list (bincount256 xs) = (\<Sum>i = 0..<256. real (count_list xs (of_nat i)))"
    by (simp only: bincount256_def interv_sum_list_conv_sum_set_nat set_upt)
  then show ?thesis
    by (simp only: bin_prob_def sum_divide_distrib [symmetric])
qed

lemma bin_prob_sum_bounds:
  "0 \<le> (\<Sum>i = 0..<256. bin_prob xs i)" "(\<Sum>i = 0..<256. bin_prob xs i) \<le> 1"
proof -
  show "0 \<le> (\<Sum>i = 0..<256. bin_prob xs i)"
    by (rule sum_nonneg) (rule bin_prob_nonneg)
  show "(\<Sum>i = 0..<256. bin_prob xs i) \<le> 1"
    unfolding bin_prob_sum using hist_sum_nonneg [of xs]
    by (simp add: divide_le_eq_1)
qed

lemma term_upper_gen:
  fixes p e :: real
  assumes "0 < p" and "0 \<le> e"
  shows "- (p * log 2 (p + e)) \<le> 8 * p + (1 / 256 - p) / ln 2"
proof -
  define q where "q = p + e"
  define x where "x = 1 / (256 * q)"
  have q: "0 < q" and pq: "p \<le> q" using assms by (simp_all add: q_def)
  have x: "0 < x" using q by (simp add: x_def)
  have l2: "0 < ln (2::real)" by simp
  have "ln x \<le> x - 1" using x by (rule ln_le_minus_one)
  moreover have "ln x = - ln (256 :: real) - ln q"
    using q by (simp add: x_def ln_div ln_mult)
  moreover have "ln (256 :: real) = 8 * ln 2"
  proof -
    have "ln ((2::real) ^ 8) = 8 * ln 2" by (simp only: ln_realpow of_nat_numeral)
    then show ?thesis by simp
  qed
  ultimately have "- ln q \<le> 8 * ln 2 + x - 1" by linarith
  then have "p * (- ln q) \<le> p * (8 * ln 2 + x - 1)"
    using assms(1) by (simp only: mult_le_cancel_left_pos)
  moreover have "p * x \<le> 1 / 256"
  proof -
    have "p / q \<le> 1" using q pq by (simp add: divide_le_eq_1)
    then show ?thesis by (simp add: x_def)
  qed
  ultimately have "- (p * ln q) \<le> 8 * p * ln 2 + (1 / 256 - p)"
    by (simp add: algebra_simps)
  then have "- (p * ln q) / ln 2 \<le> (8 * p * ln 2 + (1 / 256 - p)) / ln 2"
    using l2 by (simp only: divide_le_cancel) simp
  also have "\<dots> = 8 * p + (1 / 256 - p) / ln 2"
    using l2 by (simp add: add_divide_distrib)
  finally show ?thesis by (simp add: log_def q_def)
qed

lemma term_upper:
  fixes p :: real
  assumes "0 < p"
  shows "- (p * log 2 (p + 1 / 10 ^ 12)) \<le> 8 * p + (1 / 256 - p) / ln 2"
  using assms by (rule term_upper_gen) simp

lemma shannon_entropy_le_8: "shannon_entropy arr \<le> 8"
proof -
  let ?p = "bin_prob (concat arr)"
  let ?s = "\<Sum>i = 0..<256. ?p i"
  have l2: "0 < ln (2::real)" by simp
  have "shannon_entropy arr =
      (\<Sum>i = 0..<256. if 0 < ?p i then - (?p i * log 2 (?p i + 1 / 10 ^ 12)) else 0)"
    unfolding shannon_entropy_sum sum_negf [symmetric]
    by (rule sum.cong) simp_all
  also have "\<dots> \<le> (\<Sum>i = 0..<256. 8 * ?p i + (1 / 256 - ?p i) / ln 2)"
  proof (rule sum_mono)
    fix i
    show "(if 0 < ?p i then - (?p i * log 2 (?p i + 1 / 10 ^ 12)) else 0)
        \<le> 8 * ?p i + (1 / 256 - ?p i) / ln 2"
    proof (cases "0 < ?p i")
      case True
      then show ?thesis using term_upper [of "?p i"] by simp
    next
      case False
      then have "?p i = 0" using bin_prob_nonneg [of "concat arr" i] by simp
      then show ?thesis by simp
    qed
  qed
  also have "\<dots> = 8 * ?s + (1 - ?s) / ln 2"
    by (simp add: sum.distrib sum_distrib_left [symmetric] sum_divide_distrib [symmetric]
        sum_subtractf diff_divide_distrib)
  also have "\<dots> \<le> 8 * ?s + (1 - ?s) * 2"
  proof -
    have "1 / ln (2::real) \<le> 2"
      using ln2_ge_half l2 by (simp add: divide_le_eq mult.commute)
    then have "(1 - ?s) * (1 / ln 2) \<le> (1 - ?s) * 2"
      using bin_prob_sum_bounds(2) [of "concat arr"] by (intro mult_left_mono) simp_all
    then show ?thesis by simp
  qed
  also have "\<dots> \<le> 8"
    using bin_prob_sum_bounds(2) [of "concat arr"] by simp
  finally show ?thesis .
qed


lemma term_lower:
  fixes p :: real
  assumes "0 < p" and "p \<le> 1"
  shows "p * log 2 (p + 1 / 10 ^ 12) \<le> p * (2 / 10 ^ 12)"
proof -
  define e :: real where "e = 1 / 10 ^ 12"
  have e: "0 < e" by (simp add: e_def)
  have l2: "0 < ln (2::real)" by simp
  have "ln (p + e) \<le> ln (1 + e)"
    using assms e by (simp add: add_pos_pos)
  also have "\<dots> \<le> e"
    using e by (intro ln_add_one_self_le_self) simp
  finally have "ln (p + e) \<le> e" .
  then have "ln (p + e) / ln 2 \<le> e / ln 2"
    using l2 by (simp add: divide_right_mono)
  also have "e / ln 2 \<le> 2 * e"
  proof -
    have "e \<le> 2 * e * ln 2"
      using ln2_ge_half e by (simp add: field_simps)
    then show ?thesis using l2 by (simp add: divide_le_eq)
  qed
  finally have "log 2 (p + e) \<le> 2 * e" by (simp add: log_def)
  then have "p * log 2 (p + e) \<le> p * (2 * e)"
    using assms(1) by (simp only: mult_le_cancel_left_pos)
  then show ?thesis by (simp add: e_def)
qed

lemma bin_prob_le_one: "i < 256 \<Longrightarrow> bin_prob xs i \<le> 1"
proof -
  assume i: "i < 256"
  have "bin_prob xs i \<le> (\<Sum>j = 0..<256. bin_prob xs j)"
    by (rule member_le_sum) (use i in \<open>simp_all add: bin_prob_nonneg\<close>)
  then show ?thesis using bin_prob_sum_bounds(2) [of xs] by simp
qed

lemma shannon_entropy_lower: "- (2 / 10 ^ 12) \<le> shannon_entropy arr"
proof -
  let ?p = "bin_prob (concat arr)"
  let ?s = "\<Sum>i = 0..<256. ?p i"
  have "(\<Sum>i = 0..<256. if 0 < ?p i then ?p i * log 2 (?p i + 1 / 10 ^ 12) else 0)
      \<le> (\<Sum>i = 0..<256. ?p i * (2 / 10 ^ 12))"
  proof (rule sum_mono)
    fix i assume "i \<in> {0..<256::nat}"
    then have i: "i < 256" by simp
    show "(if 0 < ?p i then ?p i * log 2 (?p i + 1 / 10 ^ 12) else 0) \<le> ?p i * (2 / 10 ^ 12)"
    proof (cases "0 < ?p i")
      case True
      then show ?thesis using term_lower [OF True bin_prob_le_one [OF i]] by simp
    next
      case False
      then have "?p i = 0" using bin_prob_nonneg [of "concat arr" i] by simp
      then show ?thesis by simp
    qed
  qed
  also have "\<dots> = ?s * (2 / 10 ^ 12)"
    by (simp only: sum_distrib_right)
  also have "\<dots> \<le> 1 * (2 / 10 ^ 12)"
    using bin_prob_sum_bounds(2) [of "concat arr"] by (intro mult_right_mono) simp_all
  finally show ?thesis
    unfolding shannon_entropy_sum by simp
qed

lemma word8_eq_of_nat_iff: "i < 256 \<Longrightarrow> (x = (of_nat i :: 8 word)) \<longleftrightarrow> (i = unat x)"
  by (auto simp: unat_of_nat)

lemma count_list_replicate: "count_list (replicate n v) w = (if v = w then n else 0)"
  by (induction n) auto

lemma concat_replicate_replicate: "concat (replicate m (replicate n v)) = replicate (m * n) v"
  by (induction m) (simp_all add: replicate_add)

lemma hist_sum_constant: "sum_list (bincount256 (replicate n v)) = real n"
proof -
  have "sum_list (bincount256 (replicate n v)) =
      (\<Sum>i = 0..<256. if v = (of_nat i :: 8 word) then real n else 0)"
    unfolding bincount256_def interv_sum_list_conv_sum_set_nat set_upt
    by (rule sum.cong) (simp_all add: count_list_replicate)
  also have "\<dots> = (\<Sum>i = 0..<256. if i = unat v then real n else 0)"
    by (rule sum.cong) (simp_all add: word8_eq_of_nat_iff)
  also have "\<dots> = real n"
    using unsigned_less [of v, where 'a = nat] by simp
  finally show ?thesis .
qed

lemma shannon_entropy_constant_plane:
  assumes "2 \<le> n" and "concat arr = replicate n v"
  shows "shannon_entropy arr < 0"
proof -
  define e :: real where "e = 1 / 10 ^ 12"
  define p :: real where "p = real n / (real n + e)"
  have e: "0 < e" by (simp add: e_def)
  have n0: "0 < n" using assms(1) by simp
  have n: "1 \<le> real n" using n0 by simp
  have p: "0 < p" using n0 e by (simp add: p_def add_pos_pos)
  have bp: "bin_prob (concat arr) i = (if i = unat v then p else 0)" if "i < 256" for i
    using that by (simp add: bin_prob_def assms(2) hist_sum_constant count_list_replicate
        word8_eq_of_nat_iff p_def e_def)
  have "shannon_entropy arr =
      - (\<Sum>i = 0..<256. if i = unat v then p * log 2 (p + e) else 0)"
    unfolding shannon_entropy_sum e_def [symmetric]
    by (intro arg_cong [where f = uminus] sum.cong) (use p in \<open>simp_all add: bp\<close>)
  also have "\<dots> = - (p * log 2 (p + e))"
    using unsigned_less [of v, where 'a = nat] by simp
  finally have eq: "shannon_entropy arr = - (p * log 2 (p + e))" .
  have "real n + e < real n + e * (real n + e)"
    using e n by (simp add: add_pos_pos)
  then have "1 < p + e"
    using e n by (simp add: p_def field_simps)
  then have "0 < log 2 (p + e)" by simp
  then show ?thesis using p by (simp add: eq)
qed


text \<open>
  Claim C6, as stated, fails: on a constant plane of 8 by 8 samples the single non-empty
  bin has probability \<open>p = 64 / (64 + 1e-12)\<close>, the logarithm is taken of
  \<open>p + 1e-12 > 1\<close>, and the result is strictly negative.
\<close>

theorem shannon_entropy_constant_plane_counterexample:
  "shannon_entropy (replicate 8 (replicate 8 128)) < 0"
  by (rule shannon_entropy_constant_plane [where n = 64 and v = 128])
     (simp_all add: concat_replicate_replicate)

text \<open>
  Claim C6, amended. For every plane of 8-bit samples the returned value is at most 8
  and at least \<open>- 2e-12\<close>: the epsilon inside the logarithm can push the result below
  zero, but by no more than that.
\<close>

theorem shannon_entropy_range:
  "- (2 / 10 ^ 12) \<le> shannon_entropy arr \<and> shannon_entropy arr \<le> 8"
  using shannon_entropy_lower [of arr] shannon_entropy_le_8 [of arr] by simp

subsection \<open>Watermark embedder: shapes and the bit string\<close>

lemma has_shape_iff: "has_shape h w a \<longleftrightarrow> length a = h \<and> (\<forall>row \<in> set a. length row = w)"
  by (simp add: has_shape_def list_all_iff)

lemma height_shape: "has_shape h w a \<Longrightarrow> height a = h"
  by (simp add: has_shape_def height_def)

lemma width_shape: "has_shape h w a \<Longrightarrow> 0 < h \<Longrightarrow> width a = w"
  by (cases a) (simp_all add: has_shape_def width_def)

lemma channel0_shape: "has_shape h w a \<Longrightarrow> has_shape h w (channel0 a)"
  by (simp add: has_shape_iff channel0_def)

lemma reflect_index_less: "0 < n \<Longrightarrow> reflect_index n i < n"
proof -
  assume n: "0 < n"
  show ?thesis
  proof (cases "n \<le> 1")
    case True
    then show ?thesis using n by (simp add: reflect_index_def)
  next
    case False
    then have p: "0 < 2 * (n - 1)" by simp
    have "i mod (2 * (n - 1)) < 2 * (n - 1)" using p by (rule mod_less_divisor)
    then show ?thesis using False
      by (auto simp add: reflect_index_def Let_def)
  qed
qed

lemma length_pad_reflect_1d: "length (pad_reflect_1d k xs) = length xs + k"
  unfolding pad_reflect_1d_def by (simp only: length_map length_upt diff_zero)

lemma set_pad_reflect_1d:
  assumes "xs \<noteq> []"
  shows "set (pad_reflect_1d k xs) \<subseteq> set xs"
proof
  fix x assume "x \<in> set (pad_reflect_1d k xs)"
  then obtain i where x: "x = xs ! reflect_index (length xs) i"
    unfolding pad_reflect_1d_def by (auto simp del: upt_Suc)
  have "reflect_index (length xs) i < length xs"
    using assms by (intro reflect_index_less) simp
  then show "x \<in> set xs" unfolding x by (rule nth_mem)
qed

lemma pad_reflect_shape:
  assumes "has_shape h w a" and "0 < h"
  shows "has_shape (h + ph) (w + pw) (pad_reflect ph pw a)"
proof -
  let ?rows = "map (pad_reflect_1d pw) a"
  have rows: "has_shape h (w + pw) ?rows"
    using assms(1) by (simp add: has_shape_iff length_pad_reflect_1d)
  then have ne: "?rows \<noteq> []" using assms(2) by (auto simp: has_shape_iff)
  have sub: "set (pad_reflect_1d ph ?rows) \<subseteq> set ?rows"
    using ne by (rule set_pad_reflect_1d)
  have len: "length (pad_reflect_1d ph ?rows) = h + ph"
    using rows by (simp only: length_pad_reflect_1d has_shape_iff)
  have all: "\<forall>row \<in> set (pad_reflect_1d ph ?rows). length row = w + pw"
    using sub rows unfolding has_shape_iff by blast
  show ?thesis
    unfolding pad_reflect_def has_shape_iff using len all by (rule conjI)
qed

lemma pad_to_8_div: "(n + pad_to_8 n) div 8 = (n + 7) div 8"
proof -
  define q r where "q = n div 8" and "r = n mod 8"
  have n: "n = 8 * q + r" and r: "r < 8" by (simp_all add: q_def r_def)
  show ?thesis
  proof (cases "r = 0")
    case True
    then show ?thesis by (simp add: pad_to_8_def n)
  next
    case False
    then have "pad_to_8 n = 8 - r" using r by (simp add: pad_to_8_def n)
    then have "n + pad_to_8 n = 8 * (q + 1)" using r n by simp
    then have a: "(n + pad_to_8 n) div 8 = q + 1" by simp
    have "n + 7 = 8 * (q + 1) + (r - 1)" using False n by simp
    moreover have "r - 1 < 8" using r by simp
    ultimately have "(n + 7) div 8 = q + 1" by (simp only: div_mult_self3 div_less) simp
    with a show ?thesis by simp
  qed
qed

lemma padded_luma_shape:
  assumes "has_shape h w ycbcr" and "0 < h"
  shows "has_shape (h + pad_to_8 h) (w + pad_to_8 w) (padded_luma ycbcr)"
proof -
  have c: "has_shape h w (channel0 ycbcr)" using assms(1) by (rule channel0_shape)
  show ?thesis
    unfolding padded_luma_def Let_def height_shape [OF c] width_shape [OF c assms(2)]
    using c assms(2) by (rule pad_reflect_shape)
qed

lemma embedded_bits_take:
  assumes "has_shape h w ycbcr" and "0 < h"
  shows "embedded_bits ycbcr message =
           take (((h + 7) div 8) * ((w + 7) div 8)) (message_bits (b64encode message))"
proof -
  note p = padded_luma_shape [OF assms]
  have h': "0 < h + pad_to_8 h" using assms(2) by simp
  show ?thesis
    unfolding embedded_bits_def Let_def height_shape [OF p] width_shape [OF p h'] pad_to_8_div ..
qed

lemma b64encode_Nil_iff: "b64encode m = [] \<longleftrightarrow> m = []"
  by (cases m rule: b64encode.cases) simp_all

lemma length_format_08b: "length (format_08b b) = 8"
  by (simp add: format_08b_def)

lemma length_message_bits: "length (message_bits s) = 8 * length s"
  by (induction s) (simp_all add: message_bits_def length_format_08b)

lemma message_bits_Nil_iff: "message_bits s = [] \<longleftrightarrow> s = []"
  using length_message_bits [of s] by (metis length_0_conv mult_is_0 zero_neq_numeral)

lemma embedded_bits_Nil_iff:
  assumes "has_shape h w ycbcr" and "0 < h" and "0 < w"
  shows "embedded_bits ycbcr message = [] \<longleftrightarrow> message = []"
proof -
  have "0 < (h + 7) div 8" "0 < (w + 7) div 8" using assms(2,3) by simp_all
  then have "0 < ((h + 7) div 8) * ((w + 7) div 8)" by simp
  then show ?thesis
    unfolding embedded_bits_take [OF assms(1,2)]
    by (simp add: message_bits_Nil_iff b64encode_Nil_iff)
qed

lemma embed_fails_iff:
  "embed_watermark_dct_bytes dct idct cv (Some ycbcr) message alpha = Inl e \<longleftrightarrow>
     e = MessageEmptyOrHostTooSmall \<and> embedded_bits ycbcr message = []"
  by (auto simp add: embed_watermark_dct_bytes_def Let_def)

lemma embed_returns:
  "embedded_bits ycbcr message \<noteq> [] \<Longrightarrow>
   \<exists>out. embed_watermark_dct_bytes dct idct cv (Some ycbcr) message alpha = Inr (out, b64encode message)"
  by (simp add: embed_watermark_dct_bytes_def Let_def)

lemma set_block_shape: "has_shape H W y_p \<Longrightarrow> has_shape H W (set_block y_p i j b)"
proof -
  assume s: "has_shape H W y_p"
  have len: "length (set_block y_p i j b) = H"
    using s by (simp add: set_block_def has_shape_iff)
  have all: "\<forall>row \<in> set (set_block y_p i j b). length row = W"
  proof
    fix row assume "row \<in> set (set_block y_p i j b)"
    then obtain r row0 where m: "(r, row0) \<in> set (enumerate 0 y_p)"
      and row: "row = (if i * 8 \<le> r \<and> r < (i + 1) * 8
            then map (\<lambda>(c, v). if j * 8 \<le> c \<and> c < (j + 1) * 8 then b ! (r - i * 8) ! (c - j * 8) else v)
                   (enumerate 0 row0)
            else row0)"
      unfolding set_block_def by auto
    from m have "row0 \<in> set y_p" by (auto simp add: in_set_enumerate_eq)
    then have "length row0 = W" using s by (simp add: has_shape_iff)
    then show "length row = W" unfolding row by simp
  qed
  show ?thesis unfolding has_shape_iff using len all by (rule conjI)
qed

lemma embed_block_shape:
  "has_shape H W (fst st) \<Longrightarrow> has_shape H W (fst (embed_block dct idct alpha bits i j st))"
  by (cases st) (simp add: embed_block_def Let_def set_block_shape)

lemma fold_preserves:
  assumes "\<And>x s. P s \<Longrightarrow> P (f x s)" and "P s"
  shows "P (fold f xs s)"
  using assms(2) by (induction xs arbitrary: s) (simp_all add: assms(1))

lemma embed_loop_shape:
  assumes "has_shape H W y_p"
  shows "has_shape H W (fst (embed_loop dct idct alpha bits bh bw y_p))"
  unfolding embed_loop_def
proof (rule fold_preserves [where P = "\<lambda>st. has_shape H W (fst st)"])
  show "has_shape H W (fst (y_p, 0::nat))" using assms by simp
next
  fix i :: nat and st :: "plane \<times> nat"
  assume "has_shape H W (fst st)"
  then show "has_shape H W (fst (fold (\<lambda>j. embed_block dct idct alpha bits i j) [0..<bw] st))"
    by (rule fold_preserves [where P = "\<lambda>st. has_shape H W (fst st)", rotated])
       (rule embed_block_shape)
qed

lemma crop_shape:
  assumes "has_shape H W y_p" and "h \<le> H" and "w \<le> W"
  shows "has_shape h w (crop h w y_p)"
proof -
  have len: "length (crop h w y_p) = h"
    using assms by (simp add: crop_def has_shape_iff)
  have all: "\<forall>row \<in> set (crop h w y_p). length row = w"
  proof
    fix row assume "row \<in> set (crop h w y_p)"
    then obtain row0 where "row0 \<in> set (take h y_p)" and row: "row = take w row0"
      unfolding crop_def by auto
    then have "row0 \<in> set y_p" by (auto dest: in_set_takeD)
    then have "length row0 = W" using assms(1) by (simp add: has_shape_iff)
    then show "length row = w" unfolding row using assms(3) by simp
  qed
  show ?thesis unfolding has_shape_iff using len all by (rule conjI)
qed

lemma row_set_channel0_snd:
  "length r = length v \<Longrightarrow>
     map (snd \<circ> (\<lambda>((y0, cr, cb), x). (x, cr, cb))) (zip r v) = map snd r"
  by (induction r v rule: list_induct2) (auto simp: split_def)

lemma row_set_channel0_fst:
  "length r = length v \<Longrightarrow>
     map (fst \<circ> (\<lambda>((y0, cr, cb), x). (x, cr, cb))) (zip r v) = v"
  by (induction r v rule: list_induct2) (auto simp: split_def)

lemma set_channel0_frame:
  assumes "has_shape h w a" and "has_shape h w y"
  shows "chroma (set_channel0 a y) = chroma a"
    and "channel0 (set_channel0 a y) = y"
    and "has_shape h w (set_channel0 a y)"
proof -
  have len: "length a = length y" using assms by (simp add: has_shape_iff)
  have rows: "\<forall>(r, v) \<in> set (zip a y). length r = length v"
  proof (clarify)
    fix r v assume "(r, v) \<in> set (zip a y)"
    then have "r \<in> set a" "v \<in> set y" by (auto dest: set_zip_leftD set_zip_rightD)
    then have "length r = w" "length v = w" using assms by (simp_all add: has_shape_iff)
    then show "length r = length v" by simp
  qed
  from len rows show "chroma (set_channel0 a y) = chroma a"
    unfolding chroma_def set_channel0_def
    by (induction a y rule: list_induct2)
       (simp_all add: row_set_channel0_snd row_set_channel0_fst)
  from len rows show "channel0 (set_channel0 a y) = y"
    unfolding channel0_def set_channel0_def
    by (induction a y rule: list_induct2)
       (simp_all add: row_set_channel0_snd row_set_channel0_fst)
  have "length (set_channel0 a y) = h"
    using assms by (simp add: set_channel0_def has_shape_iff)
  moreover have "\<forall>row \<in> set (set_channel0 a y). length row = w"
  proof
    fix row assume "row \<in> set (set_channel0 a y)"
    then obtain r v where rv: "(r, v) \<in> set (zip a y)"
      and row: "row = map2 (\<lambda>(y0, cr, cb) x. (x, cr, cb)) r v"
      unfolding set_channel0_def by auto
    from rv have "r \<in> set a" "v \<in> set y" by (auto dest: set_zip_leftD set_zip_rightD)
    then have "length r = w" "length v = w" using assms by (simp_all add: has_shape_iff)
    then show "length row = w" unfolding row by simp
  qed
  ultimately show "has_shape h w (set_channel0 a y)" unfolding has_shape_iff by (rule conjI)
qed

lemma snd_embed_block:
  "snd (embed_block dct idct alpha bits i j st) =
     (if length bits \<le> snd st then snd st else snd st + 1)"
  by (cases st) (simp add: embed_block_def Let_def)

lemma snd_inner_fold:
  "snd st \<le> length bits \<Longrightarrow>
   snd (fold (\<lambda>j. embed_block dct idct alpha bits i j) js st) = min (length bits) (snd st + length js)"
proof (induction js arbitrary: st)
  case Nil
  then show ?case by simp
next
  case (Cons j js)
  let ?st = "embed_block dct idct alpha bits i j st"
  have le: "snd ?st \<le> length bits" using Cons.prems by (simp add: snd_embed_block)
  show ?case
    using Cons.IH [OF le] Cons.prems by (simp add: snd_embed_block min_def)
qed

lemma snd_outer_fold:
  "snd st \<le> length bits \<Longrightarrow>
   snd (fold (\<lambda>i st. fold (\<lambda>j. embed_block dct idct alpha bits i j) [0..<bw] st) is st) =
     min (length bits) (snd st + length is * bw)"
proof (induction "is" arbitrary: st)
  case Nil
  then show ?case by simp
next
  case (Cons i "is")
  let ?st = "fold (\<lambda>j. embed_block dct idct alpha bits i j) [0..<bw] st"
  have s: "snd ?st = min (length bits) (snd st + bw)"
    using snd_inner_fold [OF Cons.prems, of dct idct alpha i "[0..<bw]"] by simp
  then have le: "snd ?st \<le> length bits" by simp
  show ?case
    using Cons.IH [OF le] by (simp add: s min_def add.assoc)
qed

lemma snd_embed_loop:
  "snd (embed_loop dct idct alpha bits bh bw y_p) = min (length bits) (bh * bw)"
  unfolding embed_loop_def
  using snd_outer_fold [of "(y_p, 0)" bits dct idct alpha bw "[0..<bh]"] by simp

lemma length_embedded_bits:
  assumes "has_shape h w ycbcr" and "0 < h"
  shows "length (embedded_bits ycbcr message) \<le> ((h + 7) div 8) * ((w + 7) div 8)"
  unfolding embedded_bits_take [OF assms] by simp

lemma shape_replicate: "has_shape h w (replicate h (replicate w x))"
  by (simp add: has_shape_iff)

subsection \<open>Watermark embedder: capacity and failure\<close>

text \<open>
  Claim C2, as stated, fails: the blocks are counted on the padded plane. A host of 4 by
  4 pixels has no whole block of 8 by 8, so the specification's count is 0 and its bit
  string is empty, which the claim says must fail; the code pads the plane to 8 by 8,
  keeps one bit and does not raise. The host is black: luma 0, both chroma samples 128.
\<close>

theorem embed_floor_capacity_counterexample:
  "embedded_bits (replicate 4 (replicate 4 (0, 128, 128))) [0x61] = ''0''
   \<and> take (spec_capacity 4 4) (message_bits (b64encode [0x61])) = []
   \<and> embed_watermark_dct_bytes (\<lambda>b. b) (\<lambda>b. b)
        \<lparr>astype_uint8 = (\<lambda>x. 0), ycrcb2bgr = (\<lambda>a. a), imencode_png = (\<lambda>a. [])\<rparr>
        (Some (replicate 4 (replicate 4 (0, 128, 128)))) [0x61] 4 \<noteq> Inl MessageEmptyOrHostTooSmall"
proof -
  have s: "has_shape 4 4 (replicate 4 (replicate 4 (0::real, 128::real, 128::real)))"
    by (rule shape_replicate)
  have e: "embedded_bits (replicate 4 (replicate 4 (0, 128, 128))) [0x61] = ''0''"
    using embedded_bits_take [OF s, of "[0x61]"]
    by (simp add: b64_char_def b64_alphabet_def message_bits_def format_08b_def)
  show ?thesis
    using e by (simp add: embed_fails_iff spec_capacity_def)
qed

text \<open>
  Claim C2, amended. For a decoded host of \<open>h\<close> by \<open>w\<close> pixels (both at least 1)
  the bit string of the message's base64 text is cut to its first
  \<open>ceil(h/8) * ceil(w/8)\<close> bits, the number of blocks of the padded luma plane. The
  function raises the error "Message empty or host too small" exactly when the cut bit
  string is empty, which is exactly when the message is empty; a message longer than the
  capacity does not raise, and the loop writes one block per kept bit.
\<close>

theorem embed_truncates_to_padded_blocks:
  assumes "has_shape h w ycbcr" and "0 < h" and "0 < w"
  shows "embedded_bits ycbcr message =
           take (((h + 7) div 8) * ((w + 7) div 8)) (message_bits (b64encode message))
       \<and> (embed_watermark_dct_bytes dct idct cv (Some ycbcr) message alpha
            = Inl MessageEmptyOrHostTooSmall \<longleftrightarrow> embedded_bits ycbcr message = [])
       \<and> (embedded_bits ycbcr message = [] \<longleftrightarrow> message = [])
       \<and> (message \<noteq> [] \<longrightarrow>
            (\<exists>out. embed_watermark_dct_bytes dct idct cv (Some ycbcr) message alpha
                     = Inr (out, b64encode message)))
       \<and> snd (embed_loop dct idct alpha (embedded_bits ycbcr message)
                 ((h + 7) div 8) ((w + 7) div 8) (padded_luma ycbcr))
           = length (embedded_bits ycbcr message)"
proof (intro conjI impI)
  show "embedded_bits ycbcr message =
           take (((h + 7) div 8) * ((w + 7) div 8)) (message_bits (b64encode message))"
    using assms(1,2) by (rule embedded_bits_take)
  show "embed_watermark_dct_bytes dct idct cv (Some ycbcr) message alpha
            = Inl MessageEmptyOrHostTooSmall \<longleftrightarrow> embedded_bits ycbcr message = []"
    by (simp add: embed_fails_iff)
  show nil: "embedded_bits ycbcr message = [] \<longleftrightarrow> message = []"
    using assms by (rule embedded_bits_Nil_iff)
  show "\<exists>out. embed_watermark_dct_bytes dct idct cv (Some ycbcr) message alpha
                     = Inr (out, b64encode message)" if "message \<noteq> []"
    using that nil by (intro embed_returns) simp
  show "snd (embed_loop dct idct alpha (embedded_bits ycbcr message)
                 ((h + 7) div 8) ((w + 7) div 8) (padded_luma ycbcr))
           = length (embedded_bits ycbcr message)"
    using length_embedded_bits [OF assms(1,2), of message] by (simp add: snd_embed_loop)
qed

theorem embed_truncates_to_padded_blocks_witness:
  "has_shape 9 9 (replicate 9 (replicate 9 (0, 128, 128)))
   \<and> embedded_bits (replicate 9 (replicate 9 (0, 128, 128))) [0x61] = ''0101''
   \<and> (\<exists>out. embed_watermark_dct_bytes (\<lambda>b. b) (\<lambda>b. b)
          \<lparr>astype_uint8 = (\<lambda>x. 0), ycrcb2bgr = (\<lambda>a. a), imencode_png = (\<lambda>a. [])\<rparr>
          (Some (replicate 9 (replicate 9 (0, 128, 128)))) [0x61] 4 = Inr (out, ''YQ==''))"
  using embed_truncates_to_padded_blocks [where h = 9 and w = 9
      and ycbcr = "replicate 9 (replicate 9 (0, 128, 128))" and message = "[0x61]"
      and dct = "\<lambda>b. b" and idct = "\<lambda>b. b" and alpha = 4
      and cv = "\<lparr>astype_uint8 = (\<lambda>x. 0), ycrcb2bgr = (\<lambda>a. a), imencode_png = (\<lambda>a. [])\<rparr>"]
  by (simp add: shape_replicate b64_char_def b64_alphabet_def message_bits_def format_08b_def)

subsection \<open>Watermark embedder: frame\<close>

text \<open>
  The loop writes only the luma channel. For a decoded host of \<open>h\<close> by \<open>w\<close> pixels
  and a non-empty message the function returns the encoding of an array \<^verbatim>\<open>ycbcr\<close>
  (the one of line 173) whose chroma samples are those of the decoded input and whose
  luma plane is the padded, processed plane cut back to \<open>h\<close> rows of \<open>w\<close> samples.
  What lines 174 to 176 make of this array, the 8-bit cast, the conversion to BGR and the
  PNG encoding, is left to the parameters: the statement says nothing about the chroma
  that can be read back from the encoded image.
\<close>

theorem embed_array_keeps_chroma:
  assumes "has_shape h w ycbcr" and "0 < h" and "0 < w" and "message \<noteq> []"
  shows "\<exists>arr. embed_watermark_dct_bytes dct idct cv (Some ycbcr) message alpha
                  = Inr (encode_output cv arr, b64encode message)
           \<and> chroma arr = chroma ycbcr
           \<and> has_shape h w arr
           \<and> channel0 arr =
               crop h w (fst (embed_loop dct idct alpha (embedded_bits ycbcr message)
                 ((h + 7) div 8) ((w + 7) div 8) (padded_luma ycbcr)))"
proof -
  let ?bits = "embedded_bits ycbcr message"
  let ?loop = "embed_loop dct idct alpha ?bits ((h + 7) div 8) ((w + 7) div 8) (padded_luma ycbcr)"
  let ?y_wm = "crop h w (fst ?loop)"
  have c: "has_shape h w (channel0 ycbcr)" using assms(1) by (rule channel0_shape)
  note p = padded_luma_shape [OF assms(1,2)]
  have h': "0 < h + pad_to_8 h" using assms(2) by simp
  have bits: "?bits \<noteq> []"
    using embedded_bits_Nil_iff [OF assms(1,2,3), of message] assms(4) by simp
  have "has_shape (h + pad_to_8 h) (w + pad_to_8 w) (fst ?loop)"
    using p by (rule embed_loop_shape)
  then have y: "has_shape h w ?y_wm"
    by (rule crop_shape) simp_all
  have res: "embed_watermark_dct_bytes dct idct cv (Some ycbcr) message alpha
      = Inr (encode_output cv (set_channel0 ycbcr ?y_wm), b64encode message)"
    using bits
    by (simp add: embed_watermark_dct_bytes_def Let_def height_shape [OF c]
        width_shape [OF c assms(2)] height_shape [OF p] width_shape [OF p h'] pad_to_8_div)
  show ?thesis
    using res set_channel0_frame [OF assms(1) y] by blast
qed

text \<open>
  A host of two pixels, one above the other, with luma 10 and 13: the padded block has 13
  at row 1, column 0, the first bit of "YQ==" is 0, and the loop writes 13 + 4 there
  (here with the identity in place of the block transform, so that the written
  coefficient is the written sample).
\<close>

lemma two_pixel_host_luma: "crop 2 1 (fst (embed_loop (\<lambda>b. b) (\<lambda>b. b) 4
     (embedded_bits [[(10, 20, 30)], [(13, 21, 31)]] [0x61]) ((2 + 7) div 8) ((1 + 7) div 8)
     (padded_luma [[(10, 20, 30)], [(13, 21, 31)]]))) = [[10], [17]]"
  by code_simp

theorem embed_array_keeps_chroma_witness:
  "has_shape 2 1 ([[(10, 20, 30)], [(13, 21, 31)]] :: ycrcb)
   \<and> (\<exists>arr. embed_watermark_dct_bytes (\<lambda>b. b) (\<lambda>b. b)
          \<lparr>astype_uint8 = (\<lambda>x. 0), ycrcb2bgr = (\<lambda>a. a), imencode_png = (\<lambda>a. [])\<rparr>
          (Some [[(10, 20, 30)], [(13, 21, 31)]]) [0x61] 4
        = Inr (encode_output
                 \<lparr>astype_uint8 = (\<lambda>x. 0), ycrcb2bgr = (\<lambda>a. a), imencode_png = (\<lambda>a. [])\<rparr> arr,
               b64encode [0x61])
        \<and> chroma arr = [[(20, 30)], [(21, 31)]]
        \<and> channel0 arr = [[10], [17]])"
proof -
  let ?host = "[[(10, 20, 30)], [(13, 21, 31)]] :: ycrcb"
  let ?cv = "\<lparr>astype_uint8 = (\<lambda>x. 0), ycrcb2bgr = (\<lambda>a. a), imencode_png = (\<lambda>a. [])\<rparr>"
  have s: "has_shape 2 1 ?host" by (simp add: has_shape_def)
  have c: "chroma ?host = [[(20, 30)], [(21, 31)]]" by (simp add: chroma_def)
  from embed_array_keeps_chroma [where h = 2 and w = 1 and ycbcr = ?host and message = "[0x61]"
      and dct = "\<lambda>b. b" and idct = "\<lambda>b. b" and alpha = 4 and cv = ?cv, OF s]
  obtain arr where "embed_watermark_dct_bytes (\<lambda>b. b) (\<lambda>b. b) ?cv (Some ?host) [0x61] 4
        = Inr (encode_output ?cv arr, b64encode [0x61])"
    and "chroma arr = chroma ?host"
    and "channel0 arr = crop 2 1 (fst (embed_loop (\<lambda>b. b) (\<lambda>b. b) 4
     (embedded_bits ?host [0x61]) ((2 + 7) div 8) ((1 + 7) div 8) (padded_luma ?host)))"
    by auto
  then show ?thesis
    using s c two_pixel_host_luma by auto
qed

subsection \<open>Watermark embedder: coefficient parity\<close>

lemma np_round_of_int: "np_round (of_int k) = k"
  by (simp add: np_round_def)

lemma np_round_0: "np_round 0 = 0"
  using np_round_of_int [of 0] by simp

lemma np_round_4: "np_round 4 = 4"
  using np_round_of_int [of 4] by simp

text \<open>
  With an even \<open>alpha\<close>, the default 4 included, the coefficient step of lines 160
  to 167 never changes the parity of the rounded coefficient at row 1, column 0: it adds
  or subtracts \<open>alpha\<close> to an integer, or leaves the coefficient alone.
\<close>

theorem even_alpha_keeps_parity:
  assumes "even alpha" and "1 < length d" and "0 < length (d ! 1)"
  shows "np_round (nudge_coeff alpha d bitc ! 1 ! 0) mod 2 = np_round (d ! 1 ! 0) mod 2"
proof -
  let ?k = "np_round (d ! 1 ! 0)"
  have upd: "set_coeff d (Suc 0) 0 v ! Suc 0 ! 0 = v" for v
    using assms(2,3) by (simp add: set_coeff_def)
  have par: "(k + alpha) mod 2 = k mod 2" "(k - alpha) mod 2 = k mod 2" for k :: int
    using assms(1) by presburger+
  show ?thesis
    by (simp add: nudge_coeff_def Let_def upd np_round_of_int par del: of_int_add of_int_diff)
qed

theorem even_alpha_keeps_parity_witness:
  "even (4::int)
   \<and> np_round (nudge_coeff 4 [[8, 0], [3, 0]] (CHR ''0'') ! 1 ! 0) mod 2 = np_round 3 mod 2"
  using even_alpha_keeps_parity [of 4 "[[8, 0], [3, 0]]" "CHR ''0''"] by simp

text \<open>
  Claim C1 does not hold of the code. Take a solid block of gray value 128, whose
  transform has 1024 at row 0, column 0 and zeros elsewhere, and the message "hi", whose
  base64 text "aGk=" has the bit 1 at position 1. The rounded coefficient 0 is even and
  the bit is 1, so the code adds \<open>alpha = 4\<close>; the coefficient written is 4, still
  even, and reading its parity back gives 0, not the embedded bit 1.
\<close>

theorem parity_not_set_by_default_alpha:
  "message_bits (b64encode [0x68, 0x69]) ! 1 = CHR ''1''
   \<and> nudge_coeff 4 ([[1024, 0, 0, 0, 0, 0, 0, 0], [0, 0, 0, 0, 0, 0, 0, 0]] @ replicate 6 (replicate 8 0))
        (CHR ''1'') ! 1 ! 0 = 4
   \<and> np_round 4 mod 2 = 0
   \<and> int_of_bit (CHR ''1'') = 1"
  by (simp add: b64_char_def b64_alphabet_def message_bits_def format_08b_def nudge_coeff_def
      int_of_bit_def set_coeff_def np_round_0 np_round_4)

subsection \<open>Watermark failure inside the analysis\<close>

lemma same_analysis_refl: "same_analysis r r"
  by (simp add: same_analysis_def)

lemma same_analysis_error: "same_analysis (r\<lparr>res_watermark_error := e\<rparr>) r"
  by (simp add: same_analysis_def)

lemma watermark_step_failure:
  assumes "embedder (effective_message req) = Inl e"
  shows "watermark_step req embedder res =
           (if req_watermark_enabled req = Some True \<and> res_decision res = ALLOW
            then res\<lparr>res_watermark_error := Some e\<rparr> else res)"
  using assms by (simp add: watermark_step_def)

text \<open>
  Claim C5. When the upload was read and the OCR table obtained, and the embedder fails
  with the description \<open>e\<close>, the request still returns a result: all twelve fields
  of the analysis are those computed before the watermark step, no watermark bytes or
  message are attached, and the error description is attached exactly when embedding was
  attempted (watermarking enabled and decision \<open>ALLOW\<close>).
\<close>

theorem watermark_failure_keeps_analysis:
  assumes "req_ocr req = Inr rows" and "embedder (effective_message req) = Inl e"
  shows "\<exists>res. analyze (Inr req) embedder = Inr res
           \<and> same_analysis res (analysis_core req rows)
           \<and> res_watermarked_base64 res = None
           \<and> res_watermark_message res = None
           \<and> res_watermark_error res =
               (if req_watermark_enabled req = Some True \<and> res_decision (analysis_core req rows) = ALLOW
                then Some e else None)"
proof -
  let ?core = "analysis_core req rows"
  have none: "res_watermarked_base64 ?core = None" "res_watermark_message ?core = None"
      "res_watermark_error ?core = None"
    by (simp_all add: analysis_core_def Let_def split_def)
  have a: "analyze (Inr req) embedder = Inr (watermark_step req embedder ?core)"
    using assms(1) by (simp add: analyze_def)
  have w: "watermark_step req embedder ?core =
           (if req_watermark_enabled req = Some True \<and> res_decision ?core = ALLOW
            then ?core\<lparr>res_watermark_error := Some e\<rparr> else ?core)"
    using assms(2) by (rule watermark_step_failure)
  show ?thesis
    unfolding a w
    using none by (simp add: same_analysis_refl same_analysis_error)
qed

lemma embed_call_undecodable:
  "embed_call dct idct cv utf8 None message = Inl ''Cannot decode image''"
  by (simp add: embed_call_def embed_watermark_dct_bytes_def)

lemma quiet_request_allowed:
  assumes "req_exif req = None" and "req_info req = []" and "req_lsb_entropy req = 0"
    and "req_blockiness req = 0" and "req_rdr_trials req = []"
  shows "res_decision (analysis_core req []) = ALLOW"
proof -
  have flags: "metadata_flags (req_TAGS req) (req_exif req) (req_info req) = []"
    using assms(1,2) by (simp add: metadata_flags_def)
  have "shannon_entropy (req_gray req) \<le> 8" by (rule shannon_entropy_le_8)
  then have "stego_score 0 (shannon_entropy (req_gray req)) 0 [] < SCORE_QUARANTINE"
    by (simp add: stego_score_def weighted_score_def SCORE_QUARANTINE_def)
  then have "base_decision (stego_score 0 (shannon_entropy (req_gray req)) 0 []) = ALLOW"
    by (simp add: base_decision_def SCORE_QUARANTINE_def SCORE_BLOCK_def)
  then show ?thesis
    using assms(3,4,5)
    by (simp add: analysis_core_def Let_def flags rdr_inconsistency_score_def
        final_decision_def escalate_rdr_def escalate_ocr_def)
qed

theorem watermark_failure_keeps_analysis_witness:
  "\<exists>res. analyze (Inr \<lparr> req_filename = ''a.gif'', req_sha256 = ''00'', req_TAGS = Map.empty,
              req_exif = None, req_info = [], req_lsb_entropy = 0, req_gray = [[7]],
              req_blockiness = 0, req_ocr = Inr [], req_rdr_trials = [],
              req_watermark_enabled = Some True, req_watermark_msg = None \<rparr>)
            (embed_call (\<lambda>b. b) (\<lambda>b. b)
              \<lparr>astype_uint8 = (\<lambda>x. 0), ycrcb2bgr = (\<lambda>a. a), imencode_png = (\<lambda>a. [])\<rparr>
              (\<lambda>m. []) None) = Inr res
         \<and> res_path res = ''a.gif''
         \<and> res_decision res = ALLOW
         \<and> res_watermark_error res = Some ''Cannot decode image''"
proof -
  let ?req = "\<lparr> req_filename = ''a.gif'', req_sha256 = ''00'', req_TAGS = Map.empty,
              req_exif = None, req_info = [], req_lsb_entropy = 0, req_gray = [[7]],
              req_blockiness = 0, req_ocr = Inr [], req_rdr_trials = [],
              req_watermark_enabled = Some True, req_watermark_msg = None \<rparr>"
  let ?emb = "embed_call (\<lambda>b. b) (\<lambda>b. b)
              \<lparr>astype_uint8 = (\<lambda>x. 0), ycrcb2bgr = (\<lambda>a. a), imencode_png = (\<lambda>a. [])\<rparr>
              (\<lambda>m. []) None"
  have o: "req_ocr ?req = Inr []" by simp
  have e: "?emb (effective_message ?req) = Inl ''Cannot decode image''"
    by (rule embed_call_undecodable)
  have d: "res_decision (analysis_core ?req []) = ALLOW"
    by (rule quiet_request_allowed) simp_all
  have p: "res_path (analysis_core ?req []) = ''a.gif''"
    by (simp add: analysis_core_def Let_def split_def)
  from watermark_failure_keeps_analysis [of ?req "[]" ?emb "''Cannot decode image''", OF o e]
  obtain res where r: "analyze (Inr ?req) ?emb = Inr res"
    and s: "same_analysis res (analysis_core ?req [])"
    and w: "res_watermark_error res =
               (if req_watermark_enabled ?req = Some True \<and> res_decision (analysis_core ?req []) = ALLOW
                then Some ''Cannot decode image'' else None)"
    by blast
  from s have "res_path res = ''a.gif''" "res_decision res = ALLOW"
    using p d by (simp_all add: same_analysis_def)
  moreover from w d have "res_watermark_error res = Some ''Cannot decode image''" by simp
  ultimately show ?thesis using r by blast
qed

end
